theory Spec2Isabelle
  imports Main "HOL-Library.Word" "HOL-Library.Char_ord" "HOL-Library.List_Lexorder"
begin

section \<open>Data model of the quote canister (src/index.ts)\<close>

text \<open>
  The repository holds three revisions of the canister. \<^verbatim>\<open>src/index.ts\<close> opens with
  the revision whose creating operations call validation helpers; its functions keep
  their names here. The same file goes on with the revision it was derived from, which
  has no helpers (suffix \<open>_r1\<close>; its queries and deleting operations are those of the
  revision with helpers up to the wording of messages). A further revision, kept in a
  file of its own, wraps every body in \<^verbatim>\<open>try\<close>/\<^verbatim>\<open>catch\<close> and takes the author's name
  from the payload (suffix \<open>_r2\<close>).

  The records of \<^verbatim>\<open>src/index.ts\<close>. Field names carry the record's name as a prefix,
  since several records share \<^verbatim>\<open>id\<close>, \<^verbatim>\<open>authorId\<close> and \<^verbatim>\<open>created\<close>.
  \<^verbatim>\<open>nat64\<close> is a 64-bit word, \<^verbatim>\<open>Opt\<close> is \<open>option\<close>.
\<close>

record Quote =
  quote_id :: string
  quote_authorId :: string
  quote_author :: string
  quote_quote :: string
  quote_created :: "64 word"
  quote_lastUpdate :: "64 word option"

record Comment =
  comment_id :: string
  comment_authorId :: string
  comment_authorName :: string
  comment_quoteId :: string
  comment_comment :: string
  comment_created :: "64 word"
  comment_lastUpdate :: "64 word option"

record User =
  user_id :: string
  user_name :: string
  user_pinCode :: string
  user_created :: "64 word"
  user_lastUpdate :: "64 word option"

record NewUserPayload =
  pl_name :: string
  pl_pinCode :: string

record NewQuotePayload =
  nq_authorId :: string
  nq_quote :: string

record NewCommentPayload =
  nc_authorId :: string
  nc_quoteId :: string
  nc_comment :: string

record QuoteToDisplay =
  qd_id :: string
  qd_quote :: string
  qd_author :: string

record CommentsToDisplay =
  cd_comment :: string
  cd_author :: string

text \<open>
  Every operation returns \<^verbatim>\<open>Result<T, string>\<close>. The error strings of the source are
  the constructors below; \<open>message\<close> gives the string each one stands for. The names
  are those of the specification's taxonomy, with the operation appended where the
  source has several messages of one kind. The last four are messages of the revision
  with \<^verbatim>\<open>try\<close>/\<^verbatim>\<open>catch\<close> (below): the validation message of its \<^verbatim>\<open>newUser\<close> and the messages of the
  \<^verbatim>\<open>catch\<close> branches of its creating operations.
\<close>

datatype error =
    ValidationError
  | UnknownAuthor
  | EmptyResult
  | UnknownQuote
  | NoComments
  | NotFound_credentials
  | DuplicateName
  | Unauthorized_quote
  | NotFound_quote
  | Mismatch
  | Unauthorized_comment
  | NotFound_comment
  | Unauthorized_user
  | NotFound_user
  | ValidationError_newUser
  | Error_newUser
  | Error_newQuote
  | Error_addComment

fun message :: "error \<Rightarrow> string" where
  "message ValidationError = ''Invalid input: name and pinCode are required.''"
| "message UnknownAuthor = ''Author with given ID not found.''"
| "message EmptyResult = ''At the moment there is no quote...''"
| "message UnknownQuote = ''No quote found with the given ID.''"
| "message NoComments = ''No comments found for this quote.''"
| "message NotFound_credentials = ''No user found with these credentials''"
| "message DuplicateName = ''Sorry, this name is already in use...''"
| "message Unauthorized_quote = ''You cannot delete the quote because you are not the owner.''"
| "message NotFound_quote = ''Quote with given Id not found.''"
| "message Mismatch = ''This comment is not on the given quote.''"
| "message Unauthorized_comment = ''Unable to delete the comment, you are not the author.''"
| "message NotFound_comment = ''Comment with given Id not found.''"
| "message Unauthorized_user = ''Unable to delete user, wrong credentials.''"
| "message NotFound_user = ''No user found with those credentials.''"
| "message ValidationError_newUser = ''Invalid payload properties for creating a new user''"
| "message Error_newUser = ''Error creating a new user.''"
| "message Error_newQuote = ''Error creating a new quote.''"
| "message Error_addComment = ''Error adding a new comment.''"

section \<open>The collection store\<close>

text \<open>
  Modelled from the spec: the collection store. \<^verbatim>\<open>StableBTreeMap<string, V>\<close> is
  declared in the azle library, whose code is not in the repository. The specification
  describes it as an ordered map from keys to records with the operations \<^verbatim>\<open>get\<close>,
  \<^verbatim>\<open>insert\<close> (which replaces the record of a key that is present), \<^verbatim>\<open>remove\<close> (which
  returns the record it removes, if any) and \<^verbatim>\<open>values\<close> (the records in a fixed
  order), and with a bound on the serialised size of a record: an insertion that
  exceeds it fails with a storage fault and stores nothing. It is an association list
  here, kept in the order of its keys, the lexicographic one on characters; the proofs
  below use only that no key is repeated.

  The constructor is given the largest size of a key and of a value, in bytes:
  \<^verbatim>\<open>(0, 44, 1024)\<close> for quotes, \<^verbatim>\<open>(1, 144, 1024)\<close> for users, \<^verbatim>\<open>(2, 44, 1024)\<close> for
  comments. The sizes to which the library serialises a key and a record are inputs of
  \<open>btree_insert\<close>, as the serialisation is not part of the repository. The source
  discards what \<^verbatim>\<open>insert\<close> returns, so \<open>btree_insert\<close> gives the new store only.
\<close>

datatype raised = TypeError | StorageFault

type_synonym 'v StableBTreeMap = "(string \<times> 'v) list"

definition quote_bounds :: "nat \<times> nat" where "quote_bounds = (44, 1024)"
definition user_bounds :: "nat \<times> nat" where "user_bounds = (144, 1024)"
definition comment_bounds :: "nat \<times> nat" where "comment_bounds = (44, 1024)"

definition fits :: "nat \<times> nat \<Rightarrow> nat \<Rightarrow> nat \<Rightarrow> bool" where
  "fits bounds keyBytes valueBytes \<longleftrightarrow> keyBytes \<le> fst bounds \<and> valueBytes \<le> snd bounds"

definition btree_values :: "'v StableBTreeMap \<Rightarrow> 'v list" where
  "btree_values m = map snd m"

definition btree_get :: "string \<Rightarrow> 'v StableBTreeMap \<Rightarrow> 'v option" where
  "btree_get k m = map_of m k"

definition btree_put :: "string \<Rightarrow> 'v \<Rightarrow> 'v StableBTreeMap \<Rightarrow> 'v StableBTreeMap" where
  "btree_put k v m = insort_key fst (k, v) (filter (\<lambda>p. fst p \<noteq> k) m)"

definition btree_insert ::
  "nat \<times> nat \<Rightarrow> nat \<Rightarrow> nat \<Rightarrow> string \<Rightarrow> 'v \<Rightarrow> 'v StableBTreeMap \<Rightarrow> raised + 'v StableBTreeMap" where
  "btree_insert bounds keyBytes valueBytes k v m =
     (if fits bounds keyBytes valueBytes then Inr (btree_put k v m) else Inl StorageFault)"

definition btree_remove :: "string \<Rightarrow> 'v StableBTreeMap \<Rightarrow> 'v option \<times> 'v StableBTreeMap" where
  "btree_remove k m = (map_of m k, filter (\<lambda>p. fst p \<noteq> k) m)"

record state =
  quoteStorage :: "Quote StableBTreeMap"
  userStorage :: "User StableBTreeMap"
  commentStorage :: "Comment StableBTreeMap"

definition init_state :: state where
  "init_state = \<lparr>quoteStorage = [], userStorage = [], commentStorage = []\<rparr>"

section \<open>Validation helpers\<close>

text \<open>
  A string is falsy exactly when it is empty, and a result of \<^verbatim>\<open>find\<close> is falsy exactly
  when nothing was found.
\<close>

definition validateUserInput :: "NewUserPayload \<Rightarrow> error + unit" where
  "validateUserInput payload =
     (if pl_name payload = [] \<or> pl_pinCode payload = [] then Inl ValidationError
      else Inr ())"

definition validateQuoteInput :: "NewQuotePayload \<Rightarrow> User list \<Rightarrow> error + unit" where
  "validateQuoteInput newUserQuote allUsers =
     (case find (\<lambda>u. user_id u = nq_authorId newUserQuote) allUsers of
        None \<Rightarrow> Inl UnknownAuthor
      | Some userThatComments \<Rightarrow> Inr ())"

definition validateCommentInput :: "NewCommentPayload \<Rightarrow> User list \<Rightarrow> error + unit" where
  "validateCommentInput newComment allUsers =
     (case find (\<lambda>u. user_id u = nc_authorId newComment) allUsers of
        None \<Rightarrow> Inl UnknownAuthor
      | Some userThatComments \<Rightarrow> Inr ())"

text \<open>
  The helpers build their results with \<^verbatim>\<open>Result.Ok\<close> and \<^verbatim>\<open>Result.Err\<close> of the azle
  library, which make the plain variant objects \<^verbatim>\<open>{Ok: v}\<close> and \<^verbatim>\<open>{Err: e}\<close>: the
  objects that \<^verbatim>\<open>match\<close> takes apart in the deleting operations and that the interface
  of the canister declares as \<^verbatim>\<open>variant {Ok; Err}\<close>. Such an object has no method
  \<^verbatim>\<open>isErr\<close>, so the call \<^verbatim>\<open>validation.isErr()\<close> raises a \<^verbatim>\<open>TypeError\<close>, whatever the
  helper returned.
\<close>

definition isErr :: "error + unit \<Rightarrow> raised + bool" where
  "isErr validation = Inl TypeError"

section \<open>Queries\<close>

definition getAllQuotes :: "state \<Rightarrow> error + QuoteToDisplay list" where
  "getAllQuotes s =
     (let allQuotes = btree_values (quoteStorage s) in
      if length allQuotes = 0 then Inl EmptyResult
      else Inr (map (\<lambda>singleQuote.
                  \<lparr>qd_id = quote_id singleQuote,
                   qd_quote = quote_quote singleQuote,
                   qd_author = quote_author singleQuote\<rparr>) allQuotes))"

definition getQuoteComments :: "string \<Rightarrow> state \<Rightarrow> error + CommentsToDisplay list" where
  "getQuoteComments quoteId s =
     (let allQuotes = btree_values (quoteStorage s) in
      case find (\<lambda>q. quote_id q = quoteId) allQuotes of
        None \<Rightarrow> Inl UnknownQuote
      | Some quoteById \<Rightarrow>
          (let allComments = btree_values (commentStorage s);
               quoteComments = filter (\<lambda>c. comment_quoteId c = quoteId) allComments in
           if length quoteComments = 0 then Inl NoComments
           else Inr (map (\<lambda>c. \<lparr>cd_comment = comment_comment c,
                                cd_author = comment_authorName c\<rparr>) quoteComments)))"

definition getMyUserData :: "NewUserPayload \<Rightarrow> state \<Rightarrow> error + User" where
  "getMyUserData payload s =
     (let allUsers = btree_values (userStorage s) in
      case find (\<lambda>u. user_name u = pl_name payload \<and> user_pinCode u = pl_pinCode payload)
             allUsers of
        None \<Rightarrow> Inl NotFound_credentials
      | Some userData \<Rightarrow> Inr userData)"

section \<open>Updates\<close>

text \<open>
  \<^verbatim>\<open>uuidv4()\<close> and \<^verbatim>\<open>ic.time()\<close> are inputs from the environment: each creating
  operation takes the identifier and the time it is given as arguments, and after
  them the sizes to which the key and the record of its insertion are serialised. A
  creating operation either raises (\<open>Inl\<close>) or returns its result together with the
  state it leaves (\<open>Inr\<close>); a call that raises leaves the stores as they were. What
  follows the call of \<^verbatim>\<open>isErr\<close> is modelled as the source has it, the test read as
  telling \<^verbatim>\<open>Err\<close> from \<^verbatim>\<open>Ok\<close>; it is never reached.
\<close>

definition newUser ::
  "NewUserPayload \<Rightarrow> string \<Rightarrow> 64 word \<Rightarrow> nat \<Rightarrow> nat \<Rightarrow> state \<Rightarrow>
     raised + ((error + User) \<times> state)" where
  "newUser payload uuid now keyBytes valueBytes s =
     (let validation = validateUserInput payload in
      case isErr validation of
        Inl raisedError \<Rightarrow> Inl raisedError
      | Inr _ \<Rightarrow>
          (case validation of
             Inl e \<Rightarrow> Inr (Inl e, s)
           | Inr _ \<Rightarrow>
               (let allUsers = btree_values (userStorage s) in
                case find (\<lambda>u. user_name u = pl_name payload) allUsers of
                  Some checkUserName \<Rightarrow> Inr (Inl DuplicateName, s)
                | None \<Rightarrow>
                    (let user = \<lparr>user_id = uuid, user_name = pl_name payload,
                                 user_pinCode = pl_pinCode payload, user_created = now,
                                 user_lastUpdate = None\<rparr> in
                     case btree_insert user_bounds keyBytes valueBytes
                            (user_id user @ user_pinCode user) user (userStorage s) of
                       Inl raisedError \<Rightarrow> Inl raisedError
                     | Inr users \<Rightarrow> Inr (Inr user, s\<lparr>userStorage := users\<rparr>)))))"

definition newQuote ::
  "NewQuotePayload \<Rightarrow> string \<Rightarrow> 64 word \<Rightarrow> nat \<Rightarrow> nat \<Rightarrow> state \<Rightarrow>
     raised + ((error + Quote) \<times> state)" where
  "newQuote newUserQuote uuid now keyBytes valueBytes s =
     (let allUsers = btree_values (userStorage s);
          validation = validateQuoteInput newUserQuote allUsers in
      case isErr validation of
        Inl raisedError \<Rightarrow> Inl raisedError
      | Inr _ \<Rightarrow>
          (case validation of
             Inl e \<Rightarrow> Inr (Inl e, s)
           | Inr _ \<Rightarrow>
               (case find (\<lambda>u. user_id u = nq_authorId newUserQuote) allUsers of
                  None \<Rightarrow> Inr (Inl UnknownAuthor, s)
                | Some userThatComments \<Rightarrow>
                    (let quote = \<lparr>quote_id = uuid, quote_authorId = nq_authorId newUserQuote,
                                  quote_author = user_name userThatComments,
                                  quote_quote = nq_quote newUserQuote, quote_created = now,
                                  quote_lastUpdate = None\<rparr> in
                     case btree_insert quote_bounds keyBytes valueBytes
                            (quote_id quote) quote (quoteStorage s) of
                       Inl raisedError \<Rightarrow> Inl raisedError
                     | Inr quotes \<Rightarrow> Inr (Inr quote, s\<lparr>quoteStorage := quotes\<rparr>)))))"

definition addComment ::
  "NewCommentPayload \<Rightarrow> string \<Rightarrow> 64 word \<Rightarrow> nat \<Rightarrow> nat \<Rightarrow> state \<Rightarrow>
     raised + ((error + Comment) \<times> state)" where
  "addComment newComment uuid now keyBytes valueBytes s =
     (let allUsers = btree_values (userStorage s);
          validation = validateCommentInput newComment allUsers in
      case isErr validation of
        Inl raisedError \<Rightarrow> Inl raisedError
      | Inr _ \<Rightarrow>
          (case validation of
             Inl e \<Rightarrow> Inr (Inl e, s)
           | Inr _ \<Rightarrow>
               (case find (\<lambda>u. user_id u = nc_authorId newComment) allUsers of
                  None \<Rightarrow> Inr (Inl UnknownAuthor, s)
                | Some userThatComments \<Rightarrow>
                    (let commentToAdd =
                           \<lparr>comment_id = uuid, comment_authorId = nc_authorId newComment,
                            comment_authorName = user_name userThatComments,
                            comment_quoteId = nc_quoteId newComment,
                            comment_comment = nc_comment newComment, comment_created = now,
                            comment_lastUpdate = None\<rparr> in
                     case btree_insert comment_bounds keyBytes valueBytes
                            (comment_id commentToAdd) commentToAdd (commentStorage s) of
                       Inl raisedError \<Rightarrow> Inl raisedError
                     | Inr comments \<Rightarrow>
                         Inr (Inr commentToAdd, s\<lparr>commentStorage := comments\<rparr>)))))"

definition deleteComment ::
  "string \<Rightarrow> string \<Rightarrow> string \<Rightarrow> state \<Rightarrow> (error + Comment) \<times> state" where
  "deleteComment quoteId commentId authorId s =
     (case btree_remove commentId (commentStorage s) of
        (None, _) \<Rightarrow> (Inl NotFound_comment, s)
      | (Some commentToDelete, rest) \<Rightarrow>
          (let s' = s\<lparr>commentStorage := rest\<rparr> in
           if comment_quoteId commentToDelete \<noteq> quoteId then (Inl Mismatch, s')
           else if comment_authorId commentToDelete \<noteq> authorId
             then (Inl Unauthorized_comment, s')
           else (Inr commentToDelete, s')))"

definition deleteQuote ::
  "string \<Rightarrow> string \<Rightarrow> state \<Rightarrow> (error + Quote) \<times> state" where
  "deleteQuote quoteId authorId s =
     (let allQuotes = btree_values (quoteStorage s) in
      case find (\<lambda>q. quote_id q = quoteId \<and> quote_authorId q = authorId) allQuotes of
        None \<Rightarrow> (Inl Unauthorized_quote, s)
      | Some ownedQuote \<Rightarrow>
          (case btree_remove quoteId (quoteStorage s) of
             (None, _) \<Rightarrow> (Inl NotFound_quote, s)
           | (Some deletedQuote, rest) \<Rightarrow>
               (let s1 = s\<lparr>quoteStorage := rest\<rparr>;
                    allComments = btree_values (commentStorage s1);
                    commentsToDelete =
                      filter (\<lambda>c. comment_quoteId c = quoteId) allComments;
                    s2 = (if length commentsToDelete \<noteq> 0
                          then foldl (\<lambda>st c. snd (deleteComment quoteId (comment_id c) authorId st))
                                 s1 commentsToDelete
                          else s1) in
                (Inr deletedQuote, s2))))"

definition deleteUser ::
  "string \<Rightarrow> string \<Rightarrow> state \<Rightarrow> (error + User) \<times> state" where
  "deleteUser userId pinCode s =
     (let allUsers = btree_values (userStorage s) in
      case find (\<lambda>u. user_id u = userId) allUsers of
        None \<Rightarrow> (Inl Unauthorized_user, s)
      | Some userById \<Rightarrow>
          if user_pinCode userById \<noteq> pinCode then (Inl Unauthorized_user, s)
          else
            (case btree_remove (userId @ pinCode) (userStorage s) of
               (None, _) \<Rightarrow> (Inl NotFound_user, s)
             | (Some userToDelete, rest) \<Rightarrow>
                 (let s1 = s\<lparr>userStorage := rest\<rparr>;
                      allQuotes = btree_values (quoteStorage s1);
                      userQuotes = filter (\<lambda>q. quote_authorId q = userId) allQuotes;
                      s2 = (if length userQuotes \<noteq> 0
                            then foldl (\<lambda>st q. snd (deleteQuote (quote_id q) userId st))
                                   s1 userQuotes
                            else s1) in
                  (Inr userToDelete, s2))))"

section \<open>The creating operations of the revision without helpers\<close>

text \<open>
  The revision without helpers looks the name or the author up with \<^verbatim>\<open>find\<close> and
  calls nothing on the result: its creating operations return. An insertion that
  fails raises out of the operation, which has no \<^verbatim>\<open>try\<close>.
\<close>

definition newUser_r1 ::
  "NewUserPayload \<Rightarrow> string \<Rightarrow> 64 word \<Rightarrow> nat \<Rightarrow> nat \<Rightarrow> state \<Rightarrow>
     raised + ((error + User) \<times> state)" where
  "newUser_r1 payload uuid now keyBytes valueBytes s =
     (let allUsers = btree_values (userStorage s) in
      case find (\<lambda>u. user_name u = pl_name payload) allUsers of
        Some checkUserName \<Rightarrow> Inr (Inl DuplicateName, s)
      | None \<Rightarrow>
          (let user = \<lparr>user_id = uuid, user_name = pl_name payload,
                       user_pinCode = pl_pinCode payload, user_created = now,
                       user_lastUpdate = None\<rparr> in
           case btree_insert user_bounds keyBytes valueBytes
                  (user_id user @ user_pinCode user) user (userStorage s) of
             Inl raisedError \<Rightarrow> Inl raisedError
           | Inr users \<Rightarrow> Inr (Inr user, s\<lparr>userStorage := users\<rparr>)))"

definition newQuote_r1 ::
  "NewQuotePayload \<Rightarrow> string \<Rightarrow> 64 word \<Rightarrow> nat \<Rightarrow> nat \<Rightarrow> state \<Rightarrow>
     raised + ((error + Quote) \<times> state)" where
  "newQuote_r1 newUserQuote uuid now keyBytes valueBytes s =
     (let allUser = btree_values (userStorage s) in
      case find (\<lambda>u. user_id u = nq_authorId newUserQuote) allUser of
        None \<Rightarrow> Inr (Inl UnknownAuthor, s)
      | Some userThatComments \<Rightarrow>
          (let quote = \<lparr>quote_id = uuid, quote_authorId = nq_authorId newUserQuote,
                        quote_author = user_name userThatComments,
                        quote_quote = nq_quote newUserQuote, quote_created = now,
                        quote_lastUpdate = None\<rparr> in
           case btree_insert quote_bounds keyBytes valueBytes
                  (quote_id quote) quote (quoteStorage s) of
             Inl raisedError \<Rightarrow> Inl raisedError
           | Inr quotes \<Rightarrow> Inr (Inr quote, s\<lparr>quoteStorage := quotes\<rparr>)))"

definition addComment_r1 ::
  "NewCommentPayload \<Rightarrow> string \<Rightarrow> 64 word \<Rightarrow> nat \<Rightarrow> nat \<Rightarrow> state \<Rightarrow>
     raised + ((error + Comment) \<times> state)" where
  "addComment_r1 newComment uuid now keyBytes valueBytes s =
     (let allUser = btree_values (userStorage s) in
      case find (\<lambda>u. user_id u = nc_authorId newComment) allUser of
        None \<Rightarrow> Inr (Inl UnknownAuthor, s)
      | Some userThatComments \<Rightarrow>
          (let commentToAdd =
                 \<lparr>comment_id = uuid, comment_authorId = nc_authorId newComment,
                  comment_authorName = user_name userThatComments,
                  comment_quoteId = nc_quoteId newComment,
                  comment_comment = nc_comment newComment, comment_created = now,
                  comment_lastUpdate = None\<rparr> in
           case btree_insert comment_bounds keyBytes valueBytes
                  (comment_id commentToAdd) commentToAdd (commentStorage s) of
             Inl raisedError \<Rightarrow> Inl raisedError
           | Inr comments \<Rightarrow> Inr (Inr commentToAdd, s\<lparr>commentStorage := comments\<rparr>)))"

section \<open>Runs of the canister\<close>

text \<open>
  The environment admits one call at a time, and the stores outlive a change of the
  code. The creating operations of the revision with helpers raise on every call and
  leave the stores as they were, so the records its operations find are those the
  revision without helpers stored. A run is a list of update calls applied to the empty stores:
  the creating operations of the revision without helpers, each call carrying the
  identifier, the time and the two sizes the environment hands it, and the deleting
  operations. Queries, and calls that raise, leave the state as it is.
\<close>

datatype call =
    NewUser NewUserPayload string "64 word" nat nat
  | NewQuote NewQuotePayload string "64 word" nat nat
  | AddComment NewCommentPayload string "64 word" nat nat
  | DeleteQuote string string
  | DeleteComment string string string
  | DeleteUser string string

definition state_after :: "raised + ('r \<times> state) \<Rightarrow> state \<Rightarrow> state" where
  "state_after outcome s = (case outcome of Inl raisedError \<Rightarrow> s | Inr (result, s') \<Rightarrow> s')"

fun step :: "state \<Rightarrow> call \<Rightarrow> state" where
  "step s (NewUser p uuid now keyBytes valueBytes) =
     state_after (newUser_r1 p uuid now keyBytes valueBytes s) s"
| "step s (NewQuote p uuid now keyBytes valueBytes) =
     state_after (newQuote_r1 p uuid now keyBytes valueBytes s) s"
| "step s (AddComment p uuid now keyBytes valueBytes) =
     state_after (addComment_r1 p uuid now keyBytes valueBytes s) s"
| "step s (DeleteQuote quoteId authorId) = snd (deleteQuote quoteId authorId s)"
| "step s (DeleteComment quoteId commentId authorId) =
     snd (deleteComment quoteId commentId authorId s)"
| "step s (DeleteUser userId pinCode) = snd (deleteUser userId pinCode s)"

definition run :: "call list \<Rightarrow> state" where
  "run cs = foldl step init_state cs"

section \<open>The revision with try and catch\<close>


record CommentPayload =
  cp_authorId :: string
  cp_authorName :: string
  cp_quoteId :: string
  cp_comment :: string

definition getAllQuotes_r2 :: "state \<Rightarrow> error + Quote list" where
  "getAllQuotes_r2 s = Inr (btree_values (quoteStorage s))"

definition newUser_r2 ::
  "NewUserPayload \<Rightarrow> string \<Rightarrow> 64 word \<Rightarrow> nat \<Rightarrow> nat \<Rightarrow> state \<Rightarrow> (error + User) \<times> state" where
  "newUser_r2 payload uuid now keyBytes valueBytes s =
     (if pl_name payload = [] \<or> pl_pinCode payload = [] then (Inl ValidationError_newUser, s)
      else
        (let allUsers = btree_values (userStorage s) in
         case find (\<lambda>u. user_name u = pl_name payload) allUsers of
           Some checkUserName \<Rightarrow> (Inl DuplicateName, s)
         | None \<Rightarrow>
             (let user = \<lparr>user_id = uuid, user_name = pl_name payload,
                          user_pinCode = pl_pinCode payload, user_created = now,
                          user_lastUpdate = None\<rparr> in
              case btree_insert user_bounds keyBytes valueBytes
                     (user_id user) user (userStorage s) of
                Inl raisedError \<Rightarrow> (Inl Error_newUser, s)
              | Inr users \<Rightarrow> (Inr user, s\<lparr>userStorage := users\<rparr>))))"


definition addComment_r2 ::
  "CommentPayload \<Rightarrow> string \<Rightarrow> 64 word \<Rightarrow> nat \<Rightarrow> nat \<Rightarrow> state \<Rightarrow> (error + Comment) \<times> state" where
  "addComment_r2 newComment uuid now keyBytes valueBytes s =
     (let commentToAdd =
            \<lparr>comment_id = uuid, comment_authorId = cp_authorId newComment,
             comment_authorName = cp_authorName newComment,
             comment_quoteId = cp_quoteId newComment,
             comment_comment = cp_comment newComment, comment_created = now,
             comment_lastUpdate = None\<rparr> in
      case btree_insert comment_bounds keyBytes valueBytes
             (comment_id commentToAdd) commentToAdd (commentStorage s) of
        Inl raisedError \<Rightarrow> (Inl Error_addComment, s)
      | Inr comments \<Rightarrow> (Inr commentToAdd, s\<lparr>commentStorage := comments\<rparr>))"

section \<open>Invariants of the stores\<close>

text \<open>
  A store is keyed by \<open>f\<close> when no key occurs twice and each record sits under the key
  \<open>f\<close> computes from it. In every state a run reaches (\<open>store_inv_run\<close> below), quotes
  and comments sit under their ids, users under id followed by pin code, and no two
  users share a name.
\<close>

definition keyed :: "('v \<Rightarrow> string) \<Rightarrow> 'v StableBTreeMap \<Rightarrow> bool" where
  "keyed f m \<longleftrightarrow> distinct (map fst m) \<and> (\<forall>p \<in> set m. fst p = f (snd p))"

definition store_inv :: "state \<Rightarrow> bool" where
  "store_inv s \<longleftrightarrow>
     keyed quote_id (quoteStorage s) \<and>
     keyed comment_id (commentStorage s) \<and>
     keyed (\<lambda>u. user_id u @ user_pinCode u) (userStorage s) \<and>
     distinct (map user_name (btree_values (userStorage s)))"

section \<open>Example runs\<close>

text \<open>
  Identifiers shaped as \<^verbatim>\<open>uuidv4()\<close> produces them, and four runs used to evaluate
  the operations on concrete states: two users with a quote each and a comment on the
  other's quote; one user with a quote and no comment; one user and a comment whose
  \<^verbatim>\<open>quoteId\<close> names no quote; one user alone. The records \<open>comment_1\<close>, \<open>quote_1\<close>
  and \<open>user_alice\<close> are those the first run stores. The keys are 36 and 40 characters
  long and taken to serialise to 44 and 48 bytes, each of the short records to 128
  bytes: all within the bounds of the stores.
\<close>

definition uid_alice :: string where "uid_alice = ''a1a1a1a1-0000-4000-8000-000000000001''"
definition uid_bob :: string where "uid_bob = ''b2b2b2b2-0000-4000-8000-000000000002''"
definition qid_1 :: string where "qid_1 = ''c3c3c3c3-0000-4000-8000-000000000003''"
definition qid_2 :: string where "qid_2 = ''d4d4d4d4-0000-4000-8000-000000000004''"
definition cid_1 :: string where "cid_1 = ''e5e5e5e5-0000-4000-8000-000000000005''"
definition cid_2 :: string where "cid_2 = ''f6f6f6f6-0000-4000-8000-000000000006''"
definition cid_3 :: string where "cid_3 = ''07070707-0000-4000-8000-000000000007''"
definition qid_absent :: string where "qid_absent = ''99999999-0000-4000-8000-000000000009''"
definition uid_carol :: string where "uid_carol = ''c0c0c0c0-0000-4000-8000-00000000000c''"

definition example_calls :: "call list" where
  "example_calls =
     [NewUser \<lparr>pl_name = ''alice'', pl_pinCode = ''1111''\<rparr> uid_alice 1 48 128,
      NewUser \<lparr>pl_name = ''bob'', pl_pinCode = ''2222''\<rparr> uid_bob 2 48 128,
      NewQuote \<lparr>nq_authorId = uid_alice, nq_quote = ''hello''\<rparr> qid_1 3 44 128,
      NewQuote \<lparr>nq_authorId = uid_bob, nq_quote = ''world''\<rparr> qid_2 4 44 128,
      AddComment \<lparr>nc_authorId = uid_bob, nc_quoteId = qid_1, nc_comment = ''nice''\<rparr> cid_1 5 44 128,
      AddComment \<lparr>nc_authorId = uid_alice, nc_quoteId = qid_2, nc_comment = ''thanks''\<rparr> cid_2 6 44 128]"

definition quote_only_calls :: "call list" where
  "quote_only_calls =
     [NewUser \<lparr>pl_name = ''alice'', pl_pinCode = ''1111''\<rparr> uid_alice 1 48 128,
      NewQuote \<lparr>nq_authorId = uid_alice, nq_quote = ''hello''\<rparr> qid_1 2 44 128]"

definition dangling_calls :: "call list" where
  "dangling_calls =
     [NewUser \<lparr>pl_name = ''alice'', pl_pinCode = ''1111''\<rparr> uid_alice 1 48 128,
      AddComment \<lparr>nc_authorId = uid_alice, nc_quoteId = qid_absent, nc_comment = ''nice''\<rparr>
        cid_3 2 44 128]"

definition one_user_calls :: "call list" where
  "one_user_calls = [NewUser \<lparr>pl_name = ''alice'', pl_pinCode = ''1111''\<rparr> uid_alice 1 48 128]"

definition comment_1 :: Comment where
  "comment_1 = \<lparr>comment_id = cid_1, comment_authorId = uid_bob, comment_authorName = ''bob'',
                 comment_quoteId = qid_1, comment_comment = ''nice'', comment_created = 5,
                 comment_lastUpdate = None\<rparr>"

definition quote_1 :: Quote where
  "quote_1 = \<lparr>quote_id = qid_1, quote_authorId = uid_alice, quote_author = ''alice'',
               quote_quote = ''hello'', quote_created = 3, quote_lastUpdate = None\<rparr>"


section \<open>Facts about the store\<close>

lemma set_btree_put:
  "set (btree_put k v m) = insert (k, v) {p \<in> set m. fst p \<noteq> k}"
  by (auto simp: btree_put_def set_insort_key)

lemma map_fst_insort_key:
  "map fst (insort_key fst p xs) = insort (fst p) (map fst xs)"
  by (induction xs) auto

lemma distinct_btree_put:
  "distinct (map fst m) \<Longrightarrow> distinct (map fst (btree_put k v m))"
  by (auto simp: btree_put_def map_fst_insort_key distinct_insort distinct_map_filter)

lemma keyed_put: "keyed f m \<Longrightarrow> k = f v \<Longrightarrow> keyed f (btree_put k v m)"
  unfolding keyed_def by (auto simp: distinct_btree_put set_btree_put)

lemma keyed_filter: "keyed f m \<Longrightarrow> keyed f (filter P m)"
  unfolding keyed_def by (auto simp: distinct_map_filter)

lemma keyed_map_of: "keyed f m \<Longrightarrow> (k, v) \<in> set m \<Longrightarrow> map_of m k = Some v"
  unfolding keyed_def by simp

lemma keyed_key: "keyed f m \<Longrightarrow> (k, v) \<in> set m \<Longrightarrow> k = f v"
  unfolding keyed_def by auto

lemma filter_absent_key: "map_of m k = None \<Longrightarrow> filter (\<lambda>p. fst p \<noteq> k) m = m"
  by (induction m) (auto split: if_splits)

lemma deleteComment_state:
  "snd (deleteComment quoteId commentId authorId s) =
     s\<lparr>commentStorage := filter (\<lambda>p. fst p \<noteq> commentId) (commentStorage s)\<rparr>"
  by (auto simp: deleteComment_def btree_remove_def Let_def filter_absent_key split: option.splits)

lemma foldl_deleteComment:
  "foldl (\<lambda>st c. snd (deleteComment quoteId (comment_id c) authorId st)) s cs =
     s\<lparr>commentStorage := filter (\<lambda>p. fst p \<notin> comment_id ` set cs) (commentStorage s)\<rparr>"
proof (induction cs arbitrary: s)
  case Nil
  show ?case by simp
next
  case (Cons c cs)
  show ?case
    by (simp only: foldl_Cons Cons.IH) (auto simp: deleteComment_state intro: filter_cong)
qed

lemma guarded_foldl_deleteComment:
  "(if length cs \<noteq> 0
    then foldl (\<lambda>st c. snd (deleteComment quoteId (comment_id c) authorId st)) s cs
    else s) =
   s\<lparr>commentStorage := filter (\<lambda>p. fst p \<notin> comment_id ` set cs) (commentStorage s)\<rparr>"
  by (cases cs) (simp_all only: foldl_deleteComment, simp_all)

lemma find_None_set: "find P xs = None \<longleftrightarrow> (\<forall>x \<in> set xs. \<not> P x)"
  by (induction xs) auto

lemma find_Some_set: "find P xs = Some x \<Longrightarrow> x \<in> set xs \<and> P x"
  by (induction xs) (auto split: if_splits)

lemma find_Some_ex: "\<exists>x \<in> set xs. P x \<Longrightarrow> \<exists>y. find P xs = Some y \<and> P y"
  by (induction xs) auto

lemma deleteQuote_eq:
  "deleteQuote quoteId authorId s =
     (if \<exists>q \<in> set (btree_values (quoteStorage s)).
           quote_id q = quoteId \<and> quote_authorId q = authorId
      then (case map_of (quoteStorage s) quoteId of
              None \<Rightarrow> (Inl NotFound_quote, s)
            | Some d \<Rightarrow>
                (Inr d,
                 s\<lparr>quoteStorage := filter (\<lambda>p. fst p \<noteq> quoteId) (quoteStorage s),
                   commentStorage :=
                     filter (\<lambda>p. fst p \<notin> comment_id `
                                 set (filter (\<lambda>c. comment_quoteId c = quoteId)
                                        (btree_values (commentStorage s))))
                       (commentStorage s)\<rparr>))
      else (Inl Unauthorized_quote, s))"
proof (cases "find (\<lambda>q. quote_id q = quoteId \<and> quote_authorId q = authorId)
                (btree_values (quoteStorage s))")
  case None
  then have "\<not> (\<exists>q \<in> set (btree_values (quoteStorage s)).
                 quote_id q = quoteId \<and> quote_authorId q = authorId)"
    by (simp add: find_None_set)
  with None show ?thesis
    by (auto simp add: deleteQuote_def)
next
  case (Some a)
  then have ex: "\<exists>q \<in> set (btree_values (quoteStorage s)).
                 quote_id q = quoteId \<and> quote_authorId q = authorId"
    using find_Some_set by fastforce
  show ?thesis
    unfolding deleteQuote_def Let_def Some btree_remove_def guarded_foldl_deleteComment
    using ex by (simp split: option.splits)
qed

lemma keyed_values: "keyed f m \<Longrightarrow> v \<in> set (btree_values m) \<Longrightarrow> (f v, v) \<in> set m"
  unfolding keyed_def btree_values_def by force

lemma keyed_values_map_of: "keyed f m \<Longrightarrow> v \<in> set (btree_values m) \<Longrightarrow> map_of m (f v) = Some v"
  using keyed_values keyed_map_of by fastforce

lemma keyed_comment_filter:
  assumes "keyed comment_id m"
  shows "filter (\<lambda>p. fst p \<notin> comment_id ` set (filter (\<lambda>c. comment_quoteId c = quoteId) (btree_values m))) m
         = filter (\<lambda>p. comment_quoteId (snd p) \<noteq> quoteId) m"
proof (rule filter_cong[OF refl])
  fix p assume p: "p \<in> set m"
  then have k: "fst p = comment_id (snd p)" using assms by (simp add: keyed_def)
  have v: "snd p \<in> set (btree_values m)" using p by (simp add: btree_values_def)
  show "(fst p \<notin> comment_id ` set (filter (\<lambda>c. comment_quoteId c = quoteId) (btree_values m)))
        = (comment_quoteId (snd p) \<noteq> quoteId)"
  proof
    assume a: "fst p \<notin> comment_id ` set (filter (\<lambda>c. comment_quoteId c = quoteId) (btree_values m))"
    show "comment_quoteId (snd p) \<noteq> quoteId"
    proof
      assume "comment_quoteId (snd p) = quoteId"
      with v have "snd p \<in> set (filter (\<lambda>c. comment_quoteId c = quoteId) (btree_values m))" by simp
      then have "comment_id (snd p) \<in> comment_id ` set (filter (\<lambda>c. comment_quoteId c = quoteId) (btree_values m))"
        by (rule imageI)
      with a k show False by simp
    qed
  next
    assume a: "comment_quoteId (snd p) \<noteq> quoteId"
    show "fst p \<notin> comment_id ` set (filter (\<lambda>c. comment_quoteId c = quoteId) (btree_values m))"
    proof
      assume "fst p \<in> comment_id ` set (filter (\<lambda>c. comment_quoteId c = quoteId) (btree_values m))"
      then obtain c where c: "c \<in> set (btree_values m)" "comment_quoteId c = quoteId" "fst p = comment_id c"
        by auto
      from keyed_values_map_of[OF assms c(1)] c(3) have "map_of m (fst p) = Some c" by simp
      moreover have "map_of m (fst p) = Some (snd p)"
        using keyed_map_of[OF assms, of "fst p" "snd p"] p by simp
      ultimately have "c = snd p" by simp
      with c(2) a show False by simp
    qed
  qed
qed

lemma deleteQuote_owned:
  assumes "keyed quote_id (quoteStorage s)" "keyed comment_id (commentStorage s)"
    and "q \<in> set (btree_values (quoteStorage s))" "quote_authorId q = a"
  shows "deleteQuote (quote_id q) a s =
     (Inr q, s\<lparr>quoteStorage := filter (\<lambda>p. fst p \<noteq> quote_id q) (quoteStorage s),
               commentStorage := filter (\<lambda>p. comment_quoteId (snd p) \<noteq> quote_id q) (commentStorage s)\<rparr>)"
proof -
  have ex: "\<exists>q' \<in> set (btree_values (quoteStorage s)). quote_id q' = quote_id q \<and> quote_authorId q' = a"
    using assms(3,4) by blast
  have m: "map_of (quoteStorage s) (quote_id q) = Some q"
    using keyed_values_map_of[OF assms(1,3)] .
  show ?thesis
    unfolding deleteQuote_eq keyed_comment_filter[OF assms(2)] using ex m by simp
qed

lemma foldl_deleteQuote:
  assumes "keyed quote_id (quoteStorage s)" "keyed comment_id (commentStorage s)"
    and "distinct (map quote_id qs)"
    and "\<forall>q \<in> set qs. q \<in> set (btree_values (quoteStorage s)) \<and> quote_authorId q = userId"
  shows "foldl (\<lambda>st q. snd (deleteQuote (quote_id q) userId st)) s qs =
     s\<lparr>quoteStorage := filter (\<lambda>p. fst p \<notin> quote_id ` set qs) (quoteStorage s),
       commentStorage := filter (\<lambda>p. comment_quoteId (snd p) \<notin> quote_id ` set qs) (commentStorage s)\<rparr>"
  using assms
proof (induction qs arbitrary: s)
  case Nil
  show ?case by simp
next
  case (Cons q qs)
  let ?s1 = "s\<lparr>quoteStorage := filter (\<lambda>p. fst p \<noteq> quote_id q) (quoteStorage s),
               commentStorage := filter (\<lambda>p. comment_quoteId (snd p) \<noteq> quote_id q) (commentStorage s)\<rparr>"
  have q: "q \<in> set (btree_values (quoteStorage s))" "quote_authorId q = userId"
    using Cons.prems(4) by simp_all
  have step1: "snd (deleteQuote (quote_id q) userId s) = ?s1"
    using deleteQuote_owned[OF Cons.prems(1,2) q] by simp
  have k1: "keyed quote_id (quoteStorage ?s1)" "keyed comment_id (commentStorage ?s1)"
    using Cons.prems(1,2) by (simp_all add: keyed_filter)
  have d: "distinct (map quote_id qs)" using Cons.prems(3) by simp
  have rest: "\<forall>q' \<in> set qs. q' \<in> set (btree_values (quoteStorage ?s1)) \<and> quote_authorId q' = userId"
  proof
    fix q' assume q': "q' \<in> set qs"
    then have in_s: "q' \<in> set (btree_values (quoteStorage s))" and au: "quote_authorId q' = userId"
      using Cons.prems(4) by simp_all
    have "quote_id q \<notin> quote_id ` set qs" using Cons.prems(3) by simp
    then have ne: "quote_id q' \<noteq> quote_id q" using q' by (metis imageI)
    have "(quote_id q', q') \<in> set (quoteStorage s)"
      using keyed_values[OF Cons.prems(1) in_s] .
    with ne have "(quote_id q', q') \<in> set (quoteStorage ?s1)" by simp
    then have "q' \<in> set (btree_values (quoteStorage ?s1))"
      unfolding btree_values_def by force
    with au show "q' \<in> set (btree_values (quoteStorage ?s1)) \<and> quote_authorId q' = userId" by simp
  qed
  have "foldl (\<lambda>st q. snd (deleteQuote (quote_id q) userId st)) s (q # qs)
        = foldl (\<lambda>st q. snd (deleteQuote (quote_id q) userId st)) ?s1 qs"
    by (simp only: foldl_Cons step1)
  also have "\<dots> = ?s1\<lparr>quoteStorage := filter (\<lambda>p. fst p \<notin> quote_id ` set qs) (quoteStorage ?s1),
       commentStorage := filter (\<lambda>p. comment_quoteId (snd p) \<notin> quote_id ` set qs) (commentStorage ?s1)\<rparr>"
    by (rule Cons.IH[OF k1 d rest])
  also have "\<dots> = s\<lparr>quoteStorage := filter (\<lambda>p. fst p \<notin> quote_id ` set (q # qs)) (quoteStorage s),
       commentStorage := filter (\<lambda>p. comment_quoteId (snd p) \<notin> quote_id ` set (q # qs)) (commentStorage s)\<rparr>"
    by (auto intro: filter_cong)
  finally show ?case .
qed

lemma guard_foldl: "(if length xs \<noteq> 0 then foldl f s xs else s) = foldl f s xs"
  by (cases xs) simp_all

lemma deleteUser_eq:
  "deleteUser userId pinCode s =
     (case find (\<lambda>u. user_id u = userId) (btree_values (userStorage s)) of
        None \<Rightarrow> (Inl Unauthorized_user, s)
      | Some userById \<Rightarrow>
          if user_pinCode userById \<noteq> pinCode then (Inl Unauthorized_user, s)
          else (case map_of (userStorage s) (userId @ pinCode) of
                  None \<Rightarrow> (Inl NotFound_user, s)
                | Some d \<Rightarrow>
                    (Inr d,
                     foldl (\<lambda>st q. snd (deleteQuote (quote_id q) userId st))
                       (s\<lparr>userStorage := filter (\<lambda>p. fst p \<noteq> userId @ pinCode) (userStorage s)\<rparr>)
                       (filter (\<lambda>q. quote_authorId q = userId) (btree_values (quoteStorage s))))))"
  unfolding deleteUser_def Let_def btree_remove_def guard_foldl
  by (simp split: option.splits)

lemma map_of_insort_key:
  "k \<notin> fst ` set xs \<Longrightarrow> map_of (insort_key fst (k, v) xs) k = Some v"
  by (induction xs) auto

lemma map_of_btree_put: "map_of (btree_put k v m) k = Some v"
  unfolding btree_put_def by (rule map_of_insort_key) auto

lemma values_btree_put:
  "set (btree_values (btree_put k v m)) = insert v (snd ` {p \<in> set m. fst p \<noteq> k})"
  by (simp add: btree_values_def set_btree_put)

section \<open>The creating operations, case by case\<close>

lemma newUser_raises: "newUser payload uuid now keyBytes valueBytes s = Inl TypeError"
  by (simp add: newUser_def isErr_def)

lemma newQuote_raises: "newQuote newUserQuote uuid now keyBytes valueBytes s = Inl TypeError"
  by (simp add: newQuote_def isErr_def)

lemma addComment_raises: "addComment newComment uuid now keyBytes valueBytes s = Inl TypeError"
  by (simp add: addComment_def isErr_def)

lemma newUser_r1_eq:
  "newUser_r1 p uuid now keyBytes valueBytes s =
     (case find (\<lambda>u. user_name u = pl_name p) (btree_values (userStorage s)) of
        Some a \<Rightarrow> Inr (Inl DuplicateName, s)
      | None \<Rightarrow>
          if fits user_bounds keyBytes valueBytes
          then Inr (Inr \<lparr>user_id = uuid, user_name = pl_name p, user_pinCode = pl_pinCode p,
                         user_created = now, user_lastUpdate = None\<rparr>,
                    s\<lparr>userStorage :=
                        btree_put (uuid @ pl_pinCode p)
                          \<lparr>user_id = uuid, user_name = pl_name p, user_pinCode = pl_pinCode p,
                           user_created = now, user_lastUpdate = None\<rparr> (userStorage s)\<rparr>)
          else Inl StorageFault)"
  by (simp add: newUser_r1_def Let_def btree_insert_def split: option.splits)

lemma newQuote_r1_eq:
  "newQuote_r1 p uuid now keyBytes valueBytes s =
     (case find (\<lambda>u. user_id u = nq_authorId p) (btree_values (userStorage s)) of
        None \<Rightarrow> Inr (Inl UnknownAuthor, s)
      | Some a \<Rightarrow>
          if fits quote_bounds keyBytes valueBytes
          then Inr (Inr \<lparr>quote_id = uuid, quote_authorId = nq_authorId p,
                         quote_author = user_name a, quote_quote = nq_quote p,
                         quote_created = now, quote_lastUpdate = None\<rparr>,
                    s\<lparr>quoteStorage :=
                        btree_put uuid
                          \<lparr>quote_id = uuid, quote_authorId = nq_authorId p,
                           quote_author = user_name a, quote_quote = nq_quote p,
                           quote_created = now, quote_lastUpdate = None\<rparr> (quoteStorage s)\<rparr>)
          else Inl StorageFault)"
  by (simp add: newQuote_r1_def Let_def btree_insert_def split: option.splits)

lemma addComment_r1_eq:
  "addComment_r1 p uuid now keyBytes valueBytes s =
     (case find (\<lambda>u. user_id u = nc_authorId p) (btree_values (userStorage s)) of
        None \<Rightarrow> Inr (Inl UnknownAuthor, s)
      | Some a \<Rightarrow>
          if fits comment_bounds keyBytes valueBytes
          then Inr (Inr \<lparr>comment_id = uuid, comment_authorId = nc_authorId p,
                         comment_authorName = user_name a, comment_quoteId = nc_quoteId p,
                         comment_comment = nc_comment p, comment_created = now,
                         comment_lastUpdate = None\<rparr>,
                    s\<lparr>commentStorage :=
                        btree_put uuid
                          \<lparr>comment_id = uuid, comment_authorId = nc_authorId p,
                           comment_authorName = user_name a, comment_quoteId = nc_quoteId p,
                           comment_comment = nc_comment p, comment_created = now,
                           comment_lastUpdate = None\<rparr> (commentStorage s)\<rparr>)
          else Inl StorageFault)"
  by (simp add: addComment_r1_def Let_def btree_insert_def split: option.splits)


lemma addComment_r2_eq:
  "addComment_r2 p uuid now keyBytes valueBytes s =
     (if fits comment_bounds keyBytes valueBytes
      then (Inr \<lparr>comment_id = uuid, comment_authorId = cp_authorId p,
                 comment_authorName = cp_authorName p, comment_quoteId = cp_quoteId p,
                 comment_comment = cp_comment p, comment_created = now,
                 comment_lastUpdate = None\<rparr>,
            s\<lparr>commentStorage :=
                btree_put uuid
                  \<lparr>comment_id = uuid, comment_authorId = cp_authorId p,
                   comment_authorName = cp_authorName p, comment_quoteId = cp_quoteId p,
                   comment_comment = cp_comment p, comment_created = now,
                   comment_lastUpdate = None\<rparr>
                  (commentStorage s)\<rparr>)
      else (Inl Error_addComment, s))"
  by (simp add: addComment_r2_def Let_def btree_insert_def)

section \<open>The invariants hold in every state a run reaches\<close>

lemma keyed_distinct_values: "keyed f m \<Longrightarrow> distinct (map f (btree_values m))"
proof -
  assume k: "keyed f m"
  then have "map f (btree_values m) = map fst m"
    unfolding keyed_def btree_values_def by (induction m) auto
  with k show ?thesis by (simp add: keyed_def)
qed

lemma distinct_map_insort_key:
  "distinct (map h (insort_key f x xs)) \<longleftrightarrow> h x \<notin> h ` set xs \<and> distinct (map h xs)"
  by (induction xs) (auto simp: set_insort_key)

lemma store_inv_init: "store_inv init_state"
  by (simp add: store_inv_def init_state_def keyed_def btree_values_def)

lemma store_inv_quotes_filter:
  "store_inv s \<Longrightarrow> store_inv (s\<lparr>quoteStorage := filter P (quoteStorage s)\<rparr>)"
  by (simp add: store_inv_def keyed_filter)

lemma store_inv_comments_filter:
  "store_inv s \<Longrightarrow> store_inv (s\<lparr>commentStorage := filter P (commentStorage s)\<rparr>)"
  by (simp add: store_inv_def keyed_filter)

lemma store_inv_users_filter:
  "store_inv s \<Longrightarrow> store_inv (s\<lparr>userStorage := filter P (userStorage s)\<rparr>)"
  unfolding store_inv_def btree_values_def
  by (auto simp: keyed_filter distinct_map_filter)

lemma store_inv_deleteComment:
  "store_inv s \<Longrightarrow> store_inv (snd (deleteComment quoteId commentId authorId s))"
  by (simp add: deleteComment_state store_inv_comments_filter)

lemma store_inv_deleteQuote:
  assumes "store_inv s"
  shows "store_inv (snd (deleteQuote quoteId authorId s))"
proof -
  have both: "store_inv (s\<lparr>quoteStorage := filter P (quoteStorage s),
                     commentStorage := filter Q (commentStorage s)\<rparr>)" for P Q
    using store_inv_comments_filter[OF store_inv_quotes_filter[OF assms], of Q P] by simp
  show ?thesis
    using assms by (simp add: deleteQuote_eq both split: option.splits)
qed

lemma foldl_preserves:
  "P s \<Longrightarrow> (\<And>st x. P st \<Longrightarrow> P (f st x)) \<Longrightarrow> P (foldl f s xs)"
  by (induction xs arbitrary: s) simp_all

lemma store_inv_deleteUser:
  assumes "store_inv s"
  shows "store_inv (snd (deleteUser userId pinCode s))"
proof -
  have loop: "store_inv (foldl (\<lambda>st q. snd (deleteQuote (quote_id q) userId st))
                     (s\<lparr>userStorage := filter P (userStorage s)\<rparr>) qs)" for P qs
    by (rule foldl_preserves[where P = store_inv])
       (simp_all add: store_inv_users_filter[OF assms] store_inv_deleteQuote)
  show ?thesis
    using assms by (simp add: deleteUser_eq loop split: option.splits)
qed

lemma distinct_names_put:
  assumes "distinct (map h (btree_values m))" "h v \<notin> h ` set (btree_values m)"
  shows "distinct (map h (btree_values (btree_put k v m)))"
proof -
  have "distinct (map (h \<circ> snd) (filter (\<lambda>p. fst p \<noteq> k) m))"
    using assms(1) by (simp add: btree_values_def distinct_map_filter)
  moreover have "(h \<circ> snd) (k, v) \<notin> (h \<circ> snd) ` set (filter (\<lambda>p. fst p \<noteq> k) m)"
    using assms(2) by (auto simp: btree_values_def)
  ultimately show ?thesis
    by (simp add: btree_values_def btree_put_def distinct_map_insort_key)
qed

lemma store_inv_newQuote_r1:
  "store_inv s \<Longrightarrow> store_inv (state_after (newQuote_r1 p uuid now keyBytes valueBytes s) s)"
  by (auto simp: newQuote_r1_eq state_after_def store_inv_def keyed_put split: option.splits)

lemma store_inv_addComment_r1:
  "store_inv s \<Longrightarrow> store_inv (state_after (addComment_r1 p uuid now keyBytes valueBytes s) s)"
  by (auto simp: addComment_r1_eq state_after_def store_inv_def keyed_put split: option.splits)

lemma store_inv_newUser_r1:
  assumes "store_inv s"
  shows "store_inv (state_after (newUser_r1 p uuid now keyBytes valueBytes s) s)"
proof (cases "find (\<lambda>u. user_name u = pl_name p) (btree_values (userStorage s)) = None \<and>
              fits user_bounds keyBytes valueBytes")
  case False
  then show ?thesis
    using assms by (auto simp: newUser_r1_eq state_after_def split: option.splits)
next
  case True
  let ?u = "\<lparr>user_id = uuid, user_name = pl_name p, user_pinCode = pl_pinCode p,
             user_created = now, user_lastUpdate = None\<rparr>"
  have fresh: "user_name ?u \<notin> user_name ` set (btree_values (userStorage s))"
    using True by (auto simp: find_None_set)
  have st: "state_after (newUser_r1 p uuid now keyBytes valueBytes s) s =
        s\<lparr>userStorage := btree_put (uuid @ pl_pinCode p) ?u (userStorage s)\<rparr>"
    using True by (simp add: newUser_r1_eq state_after_def)
  have d: "distinct (map user_name (btree_values (btree_put (uuid @ pl_pinCode p) ?u (userStorage s))))"
    using assms fresh by (intro distinct_names_put) (simp_all add: store_inv_def)
  have k: "keyed (\<lambda>u. user_id u @ user_pinCode u) (btree_put (uuid @ pl_pinCode p) ?u (userStorage s))"
    using assms by (intro keyed_put) (simp_all add: store_inv_def)
  show ?thesis
    unfolding st using assms d k by (simp add: store_inv_def)
qed

lemma store_inv_step: "store_inv s \<Longrightarrow> store_inv (step s c)"
  by (cases c)
     (simp_all add: store_inv_newUser_r1 store_inv_newQuote_r1 store_inv_addComment_r1
        store_inv_deleteQuote store_inv_deleteComment store_inv_deleteUser)

lemma store_inv_foldl: "store_inv s \<Longrightarrow> store_inv (foldl step s cs)"
  by (rule foldl_preserves) (simp_all add: store_inv_step)

lemma store_inv_run: "store_inv (run cs)"
  unfolding run_def by (rule store_inv_foldl[OF store_inv_init])

lemma find_unique:
  assumes "distinct (map f xs)" "u \<in> set xs" "P u" "\<And>x. P x \<Longrightarrow> f x = f u"
  shows "find P xs = Some u"
proof -
  obtain y where y: "find P xs = Some y" "P y"
    using find_Some_ex[of xs P] assms(2,3) by blast
  then have "y \<in> set xs" using find_Some_set by fastforce
  moreover have "f y = f u" using y(2) assms(4) by simp
  moreover have "inj_on f (set xs)" using assms(1) by (simp add: distinct_map)
  ultimately have "y = u" using assms(2) by (simp add: inj_on_def)
  with y(1) show ?thesis by simp
qed

lemma getMyUserData_stored:
  assumes "store_inv s" "u \<in> set (btree_values (userStorage s))"
    "user_name u = pl_name payload" "user_pinCode u = pl_pinCode payload"
  shows "getMyUserData payload s = Inr u"
proof -
  have d: "distinct (map user_name (btree_values (userStorage s)))"
    using assms(1) by (simp add: store_inv_def)
  have "find (\<lambda>x. user_name x = pl_name payload \<and> user_pinCode x = pl_pinCode payload)
          (btree_values (userStorage s)) = Some u"
    by (rule find_unique[OF d assms(2)]) (simp_all add: assms(3,4))
  then show ?thesis by (simp add: getMyUserData_def)
qed

section \<open>Properties of the queries\<close>

text \<open>
  C7. In \<^verbatim>\<open>src/index.ts\<close>, \<open>getAllQuotes\<close> on a state with no quote returns the error
  \<open>EmptyResult\<close>, and on a state with at least one quote it returns the list of the
  projections (id, quote, author) of every stored quote. The revision with
  \<^verbatim>\<open>try\<close>/\<^verbatim>\<open>catch\<close> returns the stored values as a success in every state, the
  empty list included.
\<close>

theorem getAllQuotes_empty_or_list:
  "(btree_values (quoteStorage s) = [] \<longrightarrow> getAllQuotes s = Inl EmptyResult) \<and>
   (btree_values (quoteStorage s) \<noteq> [] \<longrightarrow>
      getAllQuotes s =
        Inr (map (\<lambda>q. \<lparr>qd_id = quote_id q, qd_quote = quote_quote q,
                         qd_author = quote_author q\<rparr>)
               (btree_values (quoteStorage s)))) \<and>
   getAllQuotes_r2 s = Inr (btree_values (quoteStorage s))"
  by (simp add: getAllQuotes_def getAllQuotes_r2_def)

theorem getAllQuotes_empty_or_list_witness:
  "btree_values (quoteStorage init_state) = [] \<and> getAllQuotes init_state = Inl EmptyResult \<and>
   btree_values (quoteStorage (run example_calls)) \<noteq> [] \<and>
   getAllQuotes (run example_calls) =
     Inr [\<lparr>qd_id = qid_1, qd_quote = ''hello'', qd_author = ''alice''\<rparr>,
          \<lparr>qd_id = qid_2, qd_quote = ''world'', qd_author = ''bob''\<rparr>]"
proof -
  have e: "btree_values (quoteStorage init_state) = []" by code_simp
  have n: "btree_values (quoteStorage (run example_calls)) \<noteq> []" by code_simp
  have m: "map (\<lambda>q. \<lparr>qd_id = quote_id q, qd_quote = quote_quote q, qd_author = quote_author q\<rparr>)
               (btree_values (quoteStorage (run example_calls))) =
           [\<lparr>qd_id = qid_1, qd_quote = ''hello'', qd_author = ''alice''\<rparr>,
            \<lparr>qd_id = qid_2, qd_quote = ''world'', qd_author = ''bob''\<rparr>]" by code_simp
  show ?thesis
    using getAllQuotes_empty_or_list[of init_state]
      getAllQuotes_empty_or_list[of "run example_calls"] e n m by simp
qed

text \<open>
  \<open>getAllQuotes\<close> of the revision with \<^verbatim>\<open>try\<close>/\<^verbatim>\<open>catch\<close> on the empty store: a
  success carrying the empty list, not the error \<open>EmptyResult\<close>.
\<close>

theorem getAllQuotes_r2_empty_success:
  "btree_values (quoteStorage init_state) = [] \<and> getAllQuotes_r2 init_state = Inr []"
  by (simp add: getAllQuotes_r2_def init_state_def btree_values_def)

text \<open>
  C8. \<open>getQuoteComments quoteId\<close> fails with \<open>UnknownQuote\<close> whenever no stored quote has
  that id, whatever the comment store holds, and fails with \<open>NoComments\<close> whenever such
  a quote is stored and no stored comment carries that \<open>quoteId\<close>: the quote is looked
  up before the comments are.
\<close>

theorem getQuoteComments_errors:
  "((\<forall>q \<in> set (btree_values (quoteStorage s)). quote_id q \<noteq> quoteId) \<longrightarrow>
      getQuoteComments quoteId s = Inl UnknownQuote) \<and>
   ((\<exists>q \<in> set (btree_values (quoteStorage s)). quote_id q = quoteId) \<and>
    (\<forall>c \<in> set (btree_values (commentStorage s)). comment_quoteId c \<noteq> quoteId) \<longrightarrow>
      getQuoteComments quoteId s = Inl NoComments)"
proof (intro conjI impI)
  assume "\<forall>q \<in> set (btree_values (quoteStorage s)). quote_id q \<noteq> quoteId"
  then have "find (\<lambda>q. quote_id q = quoteId) (btree_values (quoteStorage s)) = None"
    by (simp add: find_None_set)
  then show "getQuoteComments quoteId s = Inl UnknownQuote"
    by (simp add: getQuoteComments_def)
next
  assume a: "(\<exists>q \<in> set (btree_values (quoteStorage s)). quote_id q = quoteId) \<and>
    (\<forall>c \<in> set (btree_values (commentStorage s)). comment_quoteId c \<noteq> quoteId)"
  then have "find (\<lambda>q. quote_id q = quoteId) (btree_values (quoteStorage s)) \<noteq> None"
    by (simp add: find_None_set)
  then obtain q where "find (\<lambda>q. quote_id q = quoteId) (btree_values (quoteStorage s)) = Some q"
    by blast
  moreover have "filter (\<lambda>c. comment_quoteId c = quoteId) (btree_values (commentStorage s)) = []"
    using a by (simp add: filter_empty_conv)
  ultimately show "getQuoteComments quoteId s = Inl NoComments"
    by (simp add: getQuoteComments_def)
qed

theorem getQuoteComments_errors_witness:
  "map quote_id (btree_values (quoteStorage (run dangling_calls))) = [] \<and>
   map comment_quoteId (btree_values (commentStorage (run dangling_calls))) = [qid_absent] \<and>
   getQuoteComments qid_absent (run dangling_calls) = Inl UnknownQuote \<and>
   map quote_id (btree_values (quoteStorage (run quote_only_calls))) = [qid_1] \<and>
   map comment_quoteId (btree_values (commentStorage (run quote_only_calls))) = [] \<and>
   getQuoteComments qid_1 (run quote_only_calls) = Inl NoComments"
proof -
  have a: "map quote_id (btree_values (quoteStorage (run dangling_calls))) = []"
    by code_simp
  have b: "map comment_quoteId (btree_values (commentStorage (run dangling_calls))) = [qid_absent]"
    by code_simp
  have c: "map quote_id (btree_values (quoteStorage (run quote_only_calls))) = [qid_1]"
    by code_simp
  have d: "map comment_quoteId (btree_values (commentStorage (run quote_only_calls))) = []"
    by code_simp
  have a': "\<forall>q \<in> set (btree_values (quoteStorage (run dangling_calls))). quote_id q \<noteq> qid_absent"
    using a by simp
  have c': "\<exists>q \<in> set (btree_values (quoteStorage (run quote_only_calls))). quote_id q = qid_1"
    using c by (metis list.set_intros(1) list.set_map imageE)
  have d': "\<forall>c \<in> set (btree_values (commentStorage (run quote_only_calls))).
              comment_quoteId c \<noteq> qid_1"
    using d by simp
  show ?thesis
    using a b c d a' c' d'
      getQuoteComments_errors[of "run dangling_calls" qid_absent]
      getQuoteComments_errors[of "run quote_only_calls" qid_1]
    by blast
qed

section \<open>Properties of the creating operations\<close>

text \<open>
  What the revisions whose creating operations return do with a name that is taken:
  both reject it with \<open>DuplicateName\<close> and leave the state as it was (the revision with
  \<^verbatim>\<open>try\<close>/\<^verbatim>\<open>catch\<close> when name and pin code are not empty), so no two stored users of
  a run share a name; and after \<open>newUser_r1\<close> has returned a user, \<open>getMyUserData\<close> with
  the same name and pin code returns that user.
\<close>

lemma user_names_distinct_run:
  "distinct (map user_name (btree_values (userStorage (run cs))))"
  using store_inv_run[of cs] by (simp add: store_inv_def)

lemma newUser_r1_duplicate:
  assumes "\<exists>u \<in> set (btree_values (userStorage s)). user_name u = pl_name p"
  shows "newUser_r1 p uuid now keyBytes valueBytes s = Inr (Inl DuplicateName, s)"
proof -
  obtain a where "find (\<lambda>u. user_name u = pl_name p) (btree_values (userStorage s)) = Some a"
    using find_Some_ex[OF assms] by blast
  then show ?thesis by (simp add: newUser_r1_eq)
qed

lemma newUser_r2_duplicate:
  assumes "\<exists>u \<in> set (btree_values (userStorage s)). user_name u = pl_name p"
    and "pl_name p \<noteq> []" "pl_pinCode p \<noteq> []"
  shows "newUser_r2 p uuid now keyBytes valueBytes s = (Inl DuplicateName, s)"
proof -
  obtain a where "find (\<lambda>u. user_name u = pl_name p) (btree_values (userStorage s)) = Some a"
    using find_Some_ex[OF assms(1)] by blast
  then show ?thesis using assms(2,3) by (simp add: newUser_r2_def)
qed

lemma newUser_r1_getMyUserData:
  assumes "newUser_r1 payload uuid now keyBytes valueBytes (run cs) = Inr (Inr u, s1)"
  shows "user_id u = uuid \<and> getMyUserData payload s1 = Inr u"
proof -
  have u: "u = \<lparr>user_id = uuid, user_name = pl_name payload, user_pinCode = pl_pinCode payload,
                user_created = now, user_lastUpdate = None\<rparr>"
    and s1: "s1 = (run cs)\<lparr>userStorage := btree_put (uuid @ pl_pinCode payload) u (userStorage (run cs))\<rparr>"
    using assms by (auto simp: newUser_r1_eq split: option.splits if_splits)
  have "s1 = step (run cs) (NewUser payload uuid now keyBytes valueBytes)"
    using assms by (simp add: state_after_def)
  then have "s1 = run (cs @ [NewUser payload uuid now keyBytes valueBytes])"
    by (simp add: run_def)
  then have inv: "store_inv s1" by (simp add: store_inv_run)
  have stored: "u \<in> set (btree_values (userStorage s1))"
    unfolding s1 by (simp add: values_btree_put)
  have "getMyUserData payload s1 = Inr u"
    using inv stored by (rule getMyUserData_stored) (simp_all add: u)
  then show ?thesis using u by simp
qed




text \<open>
  C2. \<open>addComment\<close> never looks at the quote store and never returns \<open>UnknownQuote\<close>.
  Where it looks the author up and returns (the revision without helpers), it fails
  with \<open>UnknownAuthor\<close>, leaving the state as it was, when \<open>authorId\<close> is the id of no
  stored user; when some stored user has that id and the record fits the bounds of
  the comment store, it succeeds and stores the comment under the new id with the
  payload's \<open>quoteId\<close>, whether or not a quote with that id exists. The revision with
  \<^verbatim>\<open>try\<close>/\<^verbatim>\<open>catch\<close> succeeds and stores the comment whenever the record fits.
\<close>

theorem addComment_checks_author_only:
  "((\<forall>u \<in> set (btree_values (userStorage s)). user_id u \<noteq> nc_authorId p) \<longrightarrow>
      addComment_r1 p uuid now keyBytes valueBytes s = Inr (Inl UnknownAuthor, s)) \<and>
   ((\<exists>u \<in> set (btree_values (userStorage s)). user_id u = nc_authorId p) \<and>
    fits comment_bounds keyBytes valueBytes \<longrightarrow>
      (\<exists>c s'. addComment_r1 p uuid now keyBytes valueBytes s = Inr (Inr c, s') \<and>
            comment_id c = uuid \<and> comment_quoteId c = nc_quoteId p \<and>
            btree_get uuid (commentStorage s') = Some c)) \<and>
   (fits comment_bounds keyBytes valueBytes \<longrightarrow>
      (\<exists>c. fst (addComment_r2 cp uuid now keyBytes valueBytes s) = Inr c \<and>
           comment_id c = uuid \<and> comment_quoteId c = cp_quoteId cp \<and>
           btree_get uuid
             (commentStorage (snd (addComment_r2 cp uuid now keyBytes valueBytes s))) = Some c)) \<and>
   (\<forall>s'. addComment_r1 p uuid now keyBytes valueBytes s \<noteq> Inr (Inl UnknownQuote, s')) \<and>
   fst (addComment_r2 cp uuid now keyBytes valueBytes s) \<noteq> Inl UnknownQuote"
proof (intro conjI impI allI)
  assume "\<forall>u \<in> set (btree_values (userStorage s)). user_id u \<noteq> nc_authorId p"
  then have "find (\<lambda>u. user_id u = nc_authorId p) (btree_values (userStorage s)) = None"
    by (simp add: find_None_set)
  then show "addComment_r1 p uuid now keyBytes valueBytes s = Inr (Inl UnknownAuthor, s)"
    by (simp add: addComment_r1_eq)
next
  assume a: "(\<exists>u \<in> set (btree_values (userStorage s)). user_id u = nc_authorId p) \<and>
    fits comment_bounds keyBytes valueBytes"
  then obtain x where "find (\<lambda>u. user_id u = nc_authorId p) (btree_values (userStorage s)) = Some x"
    using find_Some_ex[of "btree_values (userStorage s)" "\<lambda>u. user_id u = nc_authorId p"] by blast
  then show "\<exists>c s'. addComment_r1 p uuid now keyBytes valueBytes s = Inr (Inr c, s') \<and>
            comment_id c = uuid \<and> comment_quoteId c = nc_quoteId p \<and>
            btree_get uuid (commentStorage s') = Some c"
    using a by (simp add: addComment_r1_eq btree_get_def map_of_btree_put)
next
  assume "fits comment_bounds keyBytes valueBytes"
  then show "\<exists>c. fst (addComment_r2 cp uuid now keyBytes valueBytes s) = Inr c \<and>
           comment_id c = uuid \<and> comment_quoteId c = cp_quoteId cp \<and>
           btree_get uuid
             (commentStorage (snd (addComment_r2 cp uuid now keyBytes valueBytes s))) = Some c"
    by (simp add: addComment_r2_eq btree_get_def map_of_btree_put)
next
  fix s'
  show "addComment_r1 p uuid now keyBytes valueBytes s \<noteq> Inr (Inl UnknownQuote, s')"
    by (simp add: addComment_r1_eq split: option.splits)
next
  show "fst (addComment_r2 cp uuid now keyBytes valueBytes s) \<noteq> Inl UnknownQuote"
    by (simp add: addComment_r2_eq)
qed

theorem addComment_checks_author_only_witness:
  "map user_id (btree_values (userStorage (run one_user_calls))) = [uid_alice] \<and>
   addComment_r1 \<lparr>nc_authorId = uid_bob, nc_quoteId = qid_absent, nc_comment = ''nice''\<rparr>
     cid_3 2 44 128 (run one_user_calls) = Inr (Inl UnknownAuthor, run one_user_calls) \<and>
   fits comment_bounds 44 128 \<and>
   (\<exists>c s'. addComment_r1 \<lparr>nc_authorId = uid_alice, nc_quoteId = qid_absent, nc_comment = ''nice''\<rparr>
               cid_3 2 44 128 (run one_user_calls) = Inr (Inr c, s') \<and>
        comment_id c = cid_3 \<and> comment_quoteId c = qid_absent \<and>
        btree_get cid_3 (commentStorage s') = Some c) \<and>
   (\<exists>c. fst (addComment_r2
               \<lparr>cp_authorId = uid_alice, cp_authorName = ''alice'', cp_quoteId = qid_absent,
                cp_comment = ''nice''\<rparr> cid_3 2 44 128 (run one_user_calls)) = Inr c \<and>
        comment_id c = cid_3 \<and> comment_quoteId c = qid_absent \<and>
        btree_get cid_3 (commentStorage (snd (addComment_r2
               \<lparr>cp_authorId = uid_alice, cp_authorName = ''alice'', cp_quoteId = qid_absent,
                cp_comment = ''nice''\<rparr> cid_3 2 44 128 (run one_user_calls)))) = Some c)"
proof -
  let ?absent = "\<lparr>nc_authorId = uid_bob, nc_quoteId = qid_absent, nc_comment = ''nice''\<rparr>"
  let ?present = "\<lparr>nc_authorId = uid_alice, nc_quoteId = qid_absent, nc_comment = ''nice''\<rparr>"
  let ?cp = "\<lparr>cp_authorId = uid_alice, cp_authorName = ''alice'', cp_quoteId = qid_absent,
              cp_comment = ''nice''\<rparr>"
  have a: "map user_id (btree_values (userStorage (run one_user_calls))) = [uid_alice]"
    by code_simp
  have ne: "uid_alice \<noteq> uid_bob" by code_simp
  have f: "fits comment_bounds 44 128" by code_simp
  have absent: "\<forall>u \<in> set (btree_values (userStorage (run one_user_calls))).
                  user_id u \<noteq> nc_authorId ?absent"
  proof
    fix u assume "u \<in> set (btree_values (userStorage (run one_user_calls)))"
    then have "user_id u \<in> set (map user_id (btree_values (userStorage (run one_user_calls))))"
      by simp
    with a ne show "user_id u \<noteq> nc_authorId ?absent" by simp
  qed
  have "uid_alice \<in> set (map user_id (btree_values (userStorage (run one_user_calls))))"
    using a by simp
  then have present: "\<exists>u \<in> set (btree_values (userStorage (run one_user_calls))).
                        user_id u = nc_authorId ?present"
    by force
  note A = addComment_checks_author_only[of "run one_user_calls" ?absent cid_3 2 44 128 ?cp]
  note P = addComment_checks_author_only[of "run one_user_calls" ?present cid_3 2 44 128 ?cp]
  have t1: "addComment_r1 ?absent cid_3 2 44 128 (run one_user_calls) =
              Inr (Inl UnknownAuthor, run one_user_calls)"
    using A[THEN conjunct1, THEN mp, OF absent] .
  have t2: "\<exists>c s'. addComment_r1 ?present cid_3 2 44 128 (run one_user_calls) = Inr (Inr c, s') \<and>
        comment_id c = cid_3 \<and> comment_quoteId c = qid_absent \<and>
        btree_get cid_3 (commentStorage s') = Some c"
    using P[THEN conjunct2, THEN conjunct1, THEN mp, OF conjI[OF present f]] by simp
  have t3: "\<exists>c. fst (addComment_r2 ?cp cid_3 2 44 128 (run one_user_calls)) = Inr c \<and>
        comment_id c = cid_3 \<and> comment_quoteId c = qid_absent \<and>
        btree_get cid_3 (commentStorage (snd (addComment_r2 ?cp cid_3 2 44 128
          (run one_user_calls)))) = Some c"
    using P[THEN conjunct2, THEN conjunct2, THEN conjunct1, THEN mp, OF f] by simp
  show ?thesis using a t1 f t2 t3 by (intro conjI)
qed

text \<open>
  \<open>addComment\<close> of the revision with \<^verbatim>\<open>try\<close>/\<^verbatim>\<open>catch\<close> with a \<open>quoteId\<close> that names no
  quote, on the empty stores: the comment is created; the result is not
  \<open>UnknownQuote\<close>.
\<close>

theorem addComment_unknown_quote_succeeds:
  "map quote_id (btree_values (quoteStorage init_state)) = [] \<and>
   fst (addComment_r2
          \<lparr>cp_authorId = uid_alice, cp_authorName = ''alice'', cp_quoteId = qid_absent,
           cp_comment = ''nice''\<rparr> cid_3 2 44 128 init_state) =
     Inr \<lparr>comment_id = cid_3, comment_authorId = uid_alice, comment_authorName = ''alice'',
          comment_quoteId = qid_absent, comment_comment = ''nice'', comment_created = 2,
          comment_lastUpdate = None\<rparr> \<and>
   btree_values (commentStorage (snd (addComment_r2
          \<lparr>cp_authorId = uid_alice, cp_authorName = ''alice'', cp_quoteId = qid_absent,
           cp_comment = ''nice''\<rparr> cid_3 2 44 128 init_state))) =
     [\<lparr>comment_id = cid_3, comment_authorId = uid_alice, comment_authorName = ''alice'',
          comment_quoteId = qid_absent, comment_comment = ''nice'', comment_created = 2,
          comment_lastUpdate = None\<rparr>]"
  by code_simp

text \<open>
  C4. The failing call. In the state holding the user named alice, \<open>newUser\<close> of the
  revision with helpers, called with the name alice and a pin code that is not empty,
  raises at \<^verbatim>\<open>validation.isErr()\<close> before the name is looked up: it does not return
  \<open>DuplicateName\<close>.
\<close>

theorem newUser_duplicate_raises:
  "map user_name (btree_values (userStorage (run one_user_calls))) = [''alice''] \<and>
   newUser \<lparr>pl_name = ''alice'', pl_pinCode = ''9999''\<rparr> uid_carol 9 48 128 (run one_user_calls) =
     Inl TypeError"
  by code_simp

text \<open>
  C9. The failing round trip. On the empty stores \<open>newUser\<close> of the revision with
  helpers raises at \<^verbatim>\<open>validation.isErr()\<close> and stores nothing, so \<open>getMyUserData\<close> with
  the same name and pin code finds no user.
\<close>

theorem newUser_round_trip_raises:
  "newUser \<lparr>pl_name = ''alice'', pl_pinCode = ''1111''\<rparr> uid_alice 1 48 128 init_state =
     Inl TypeError \<and>
   getMyUserData \<lparr>pl_name = ''alice'', pl_pinCode = ''1111''\<rparr> init_state =
     Inl NotFound_credentials"
  by code_simp

section \<open>Properties of the deleting operations\<close>

text \<open>
  C3. \<open>deleteComment\<close> removes before it validates. In every state a run reaches, for
  every stored comment \<open>c\<close>, a call with the id of \<open>c\<close> and a \<open>quoteId\<close> or an \<open>authorId\<close>
  that differs from the record's returns \<open>Mismatch\<close>, respectively
  \<open>Unauthorized_comment\<close> when only the author differs, and the comment is no longer in
  the comment store afterwards.
\<close>

theorem deleteComment_removes_before_validating:
  assumes "c \<in> set (btree_values (commentStorage (run cs)))"
    and "comment_quoteId c \<noteq> quoteId \<or> comment_authorId c \<noteq> authorId"
  shows "fst (deleteComment quoteId (comment_id c) authorId (run cs)) =
           Inl (if comment_quoteId c \<noteq> quoteId then Mismatch else Unauthorized_comment) \<and>
         c \<notin> set (btree_values (commentStorage
                 (snd (deleteComment quoteId (comment_id c) authorId (run cs))))) \<and>
         btree_get (comment_id c) (commentStorage
                 (snd (deleteComment quoteId (comment_id c) authorId (run cs)))) = None"
proof -
  have k: "keyed comment_id (commentStorage (run cs))"
    using store_inv_run[of cs] by (simp add: store_inv_def)
  have m: "map_of (commentStorage (run cs)) (comment_id c) = Some c"
    using keyed_values_map_of[OF k assms(1)] .
  have r: "fst (deleteComment quoteId (comment_id c) authorId (run cs)) =
           Inl (if comment_quoteId c \<noteq> quoteId then Mismatch else Unauthorized_comment)"
    using m assms(2) by (auto simp: deleteComment_def btree_remove_def Let_def)
  have k': "keyed comment_id (filter (\<lambda>p. fst p \<noteq> comment_id c) (commentStorage (run cs)))"
    using k by (rule keyed_filter)
  have gone: "c \<notin> set (btree_values (filter (\<lambda>p. fst p \<noteq> comment_id c) (commentStorage (run cs))))"
  proof
    assume "c \<in> set (btree_values (filter (\<lambda>p. fst p \<noteq> comment_id c) (commentStorage (run cs))))"
    from keyed_values[OF k' this] show False by simp
  qed
  have none: "map_of (filter (\<lambda>p. fst p \<noteq> comment_id c) (commentStorage (run cs))) (comment_id c) = None"
    by (simp add: map_of_eq_None_iff image_iff)
  show ?thesis
    using r gone none by (simp add: deleteComment_state btree_get_def)
qed

theorem deleteComment_removes_before_validating_witness:
  "btree_values (commentStorage (run example_calls)) ! 0 = comment_1 \<and>
   fst (deleteComment qid_1 cid_1 uid_alice (run example_calls)) = Inl Unauthorized_comment \<and>
   fst (deleteComment qid_2 cid_1 uid_bob (run example_calls)) = Inl Mismatch \<and>
   map comment_id (btree_values (commentStorage (run example_calls))) = [cid_1, cid_2] \<and>
   map comment_id (btree_values (commentStorage
      (snd (deleteComment qid_1 cid_1 uid_alice (run example_calls))))) = [cid_2] \<and>
   map comment_id (btree_values (commentStorage
      (snd (deleteComment qid_2 cid_1 uid_bob (run example_calls))))) = [cid_2] \<and>
   btree_get cid_1 (commentStorage
      (snd (deleteComment qid_1 cid_1 uid_alice (run example_calls)))) = None"
proof -
  have v: "btree_values (commentStorage (run example_calls)) ! 0 = comment_1" by code_simp
  have l: "btree_values (commentStorage (run example_calls)) \<noteq> []" by code_simp
  have m: "comment_1 \<in> set (btree_values (commentStorage (run example_calls)))"
    using v l by (metis nth_mem length_greater_0_conv)
  have f: "comment_id comment_1 = cid_1" "comment_quoteId comment_1 = qid_1"
    "comment_authorId comment_1 = uid_bob"
    by (simp_all add: comment_1_def)
  have ne: "uid_bob \<noteq> uid_alice" "qid_1 \<noteq> qid_2" by code_simp+
  have h1: "comment_quoteId comment_1 \<noteq> qid_1 \<or> comment_authorId comment_1 \<noteq> uid_alice"
    using f ne by simp
  have h2: "comment_quoteId comment_1 \<noteq> qid_2 \<or> comment_authorId comment_1 \<noteq> uid_bob"
    using f ne by simp
  have a: "map comment_id (btree_values (commentStorage (run example_calls))) = [cid_1, cid_2]"
    by code_simp
  have b: "map comment_id (btree_values (commentStorage
      (snd (deleteComment qid_1 cid_1 uid_alice (run example_calls))))) = [cid_2]"
    by code_simp
  have c: "map comment_id (btree_values (commentStorage
      (snd (deleteComment qid_2 cid_1 uid_bob (run example_calls))))) = [cid_2]"
    by code_simp
  show ?thesis
    using v a b c f ne
      deleteComment_removes_before_validating[OF m h1]
      deleteComment_removes_before_validating[OF m h2]
    by simp
qed

text \<open>
  C5. In every state a run reaches, for every stored quote \<open>q\<close> and every author id
  \<open>a\<close> other than the quote's, \<open>deleteQuote (quote_id q) a\<close> returns the error
  \<open>Unauthorized_quote\<close> and leaves the state, the quote store in particular, as it was.
\<close>

theorem deleteQuote_not_owner:
  assumes "q \<in> set (btree_values (quoteStorage (run cs)))" and "a \<noteq> quote_authorId q"
  shows "deleteQuote (quote_id q) a (run cs) = (Inl Unauthorized_quote, run cs)"
proof -
  have k: "keyed quote_id (quoteStorage (run cs))"
    using store_inv_run[of cs] by (simp add: store_inv_def)
  have "\<not> (\<exists>q' \<in> set (btree_values (quoteStorage (run cs))).
            quote_id q' = quote_id q \<and> quote_authorId q' = a)"
  proof
    assume "\<exists>q' \<in> set (btree_values (quoteStorage (run cs))).
              quote_id q' = quote_id q \<and> quote_authorId q' = a"
    then obtain q' where q': "q' \<in> set (btree_values (quoteStorage (run cs)))"
      "quote_id q' = quote_id q" "quote_authorId q' = a" by blast
    have "map_of (quoteStorage (run cs)) (quote_id q') = Some q'"
      using keyed_values_map_of[OF k q'(1)] .
    moreover have "map_of (quoteStorage (run cs)) (quote_id q) = Some q"
      using keyed_values_map_of[OF k assms(1)] .
    ultimately have "q' = q" using q'(2) by (metis option.inject)
    with q'(3) assms(2) show False by blast
  qed
  then show ?thesis by (simp only: deleteQuote_eq if_False)
qed

theorem deleteQuote_not_owner_witness:
  "btree_values (quoteStorage (run example_calls)) ! 0 = quote_1 \<and>
   deleteQuote qid_1 uid_bob (run example_calls) = (Inl Unauthorized_quote, run example_calls)"
proof -
  have v: "btree_values (quoteStorage (run example_calls)) ! 0 = quote_1" by code_simp
  have l: "btree_values (quoteStorage (run example_calls)) \<noteq> []" by code_simp
  have m: "quote_1 \<in> set (btree_values (quoteStorage (run example_calls)))"
    using v l by (metis nth_mem length_greater_0_conv)
  have f: "quote_id quote_1 = qid_1" "quote_authorId quote_1 = uid_alice"
    by (simp_all add: quote_1_def)
  have ne: "uid_bob \<noteq> uid_alice" by code_simp
  have h: "uid_bob \<noteq> quote_authorId quote_1" using f ne by simp
  show ?thesis
    using v deleteQuote_not_owner[OF m h] f by simp
qed

text \<open>
  C1. Cascade completeness. In every state a run reaches, if \<open>deleteUser userId pinCode\<close>
  returns a success then the state it leaves holds no quote whose \<open>authorId\<close> is
  \<open>userId\<close>, and no comment, whoever wrote it, whose \<open>quoteId\<close> is the id of a quote
  that had \<open>authorId = userId\<close> before the call.
\<close>

theorem deleteUser_cascade:
  assumes "deleteUser userId pinCode (run cs) = (Inr u, s')"
  shows "(\<forall>q \<in> set (btree_values (quoteStorage s')). quote_authorId q \<noteq> userId) \<and>
         (\<forall>c \<in> set (btree_values (commentStorage s')).
            \<forall>q \<in> set (btree_values (quoteStorage (run cs))).
              quote_authorId q = userId \<longrightarrow> comment_quoteId c \<noteq> quote_id q)"
proof -
  let ?s = "run cs"
  let ?qs = "filter (\<lambda>q. quote_authorId q = userId) (btree_values (quoteStorage ?s))"
  let ?s1 = "?s\<lparr>userStorage := filter (\<lambda>p. fst p \<noteq> userId @ pinCode) (userStorage ?s)\<rparr>"
  have inv: "store_inv ?s" by (rule store_inv_run)
  have kq: "keyed quote_id (quoteStorage ?s1)" and kc: "keyed comment_id (commentStorage ?s1)"
    using inv by (simp_all add: store_inv_def)
  have s': "s' = foldl (\<lambda>st q. snd (deleteQuote (quote_id q) userId st)) ?s1 ?qs"
    using assms by (simp add: deleteUser_eq split: option.splits if_splits)
  have d: "distinct (map quote_id ?qs)"
    using keyed_distinct_values[OF kq] by (simp add: distinct_map_filter)
  have mem: "\<forall>q \<in> set ?qs. q \<in> set (btree_values (quoteStorage ?s1)) \<and> quote_authorId q = userId"
    by simp
  have post: "s' = ?s1\<lparr>quoteStorage := filter (\<lambda>p. fst p \<notin> quote_id ` set ?qs) (quoteStorage ?s1),
       commentStorage := filter (\<lambda>p. comment_quoteId (snd p) \<notin> quote_id ` set ?qs) (commentStorage ?s1)\<rparr>"
    unfolding s' by (rule foldl_deleteQuote[OF kq kc d mem])
  have quotes: "\<forall>q \<in> set (btree_values (quoteStorage s')). quote_authorId q \<noteq> userId"
  proof
    fix q assume q: "q \<in> set (btree_values (quoteStorage s'))"
    then obtain k where k: "(k, q) \<in> set (quoteStorage ?s)" "k \<notin> quote_id ` set ?qs"
      unfolding post btree_values_def by auto
    have "k = quote_id q" using keyed_key[OF kq, of k q] k(1) by simp
    with k(2) have "q \<notin> set ?qs" by blast
    moreover have "q \<in> set (btree_values (quoteStorage ?s))"
      using k(1) unfolding btree_values_def by force
    ultimately show "quote_authorId q \<noteq> userId" by simp
  qed
  have comments: "\<forall>c \<in> set (btree_values (commentStorage s')).
            \<forall>q \<in> set (btree_values (quoteStorage ?s)).
              quote_authorId q = userId \<longrightarrow> comment_quoteId c \<noteq> quote_id q"
  proof (intro ballI impI)
    fix c q
    assume c: "c \<in> set (btree_values (commentStorage s'))"
      and q: "q \<in> set (btree_values (quoteStorage ?s))" "quote_authorId q = userId"
    from c have "comment_quoteId c \<notin> quote_id ` set ?qs"
      unfolding post btree_values_def by auto
    moreover have "quote_id q \<in> quote_id ` set ?qs" using q by simp
    ultimately show "comment_quoteId c \<noteq> quote_id q" by metis
  qed
  show ?thesis using quotes comments by blast
qed

theorem deleteUser_cascade_witness:
  "deleteUser uid_alice ''1111'' (run example_calls) =
     (Inr \<lparr>user_id = uid_alice, user_name = ''alice'', user_pinCode = ''1111'',
           user_created = 1, user_lastUpdate = None\<rparr>,
      run (example_calls @ [DeleteUser uid_alice ''1111''])) \<and>
   map quote_authorId (btree_values (quoteStorage (run example_calls))) = [uid_alice, uid_bob] \<and>
   map comment_quoteId (btree_values (commentStorage (run example_calls))) = [qid_1, qid_2] \<and>
   map comment_authorId (btree_values (commentStorage (run example_calls))) = [uid_bob, uid_alice] \<and>
   map quote_authorId (btree_values (quoteStorage (run (example_calls @ [DeleteUser uid_alice ''1111''])))) = [uid_bob] \<and>
   map comment_quoteId (btree_values (commentStorage (run (example_calls @ [DeleteUser uid_alice ''1111''])))) = [qid_2]"
proof -
  have h: "deleteUser uid_alice ''1111'' (run example_calls) =
     (Inr \<lparr>user_id = uid_alice, user_name = ''alice'', user_pinCode = ''1111'',
           user_created = 1, user_lastUpdate = None\<rparr>,
      run (example_calls @ [DeleteUser uid_alice ''1111'']))"
    by code_simp
  have a: "map quote_authorId (btree_values (quoteStorage (run example_calls))) = [uid_alice, uid_bob]"
    by code_simp
  have b: "map comment_quoteId (btree_values (commentStorage (run example_calls))) = [qid_1, qid_2]"
    by code_simp
  have b': "map comment_authorId (btree_values (commentStorage (run example_calls))) = [uid_bob, uid_alice]"
    by code_simp
  have c: "map quote_authorId (btree_values (quoteStorage (run (example_calls @ [DeleteUser uid_alice ''1111''])))) = [uid_bob]"
    by code_simp
  have d: "map comment_quoteId (btree_values (commentStorage (run (example_calls @ [DeleteUser uid_alice ''1111''])))) = [qid_2]"
    by code_simp
  show ?thesis
    using h a b b' c d deleteUser_cascade[OF h] by simp
qed



end
